theory Spec2Isabelle
  imports Main "HOL-Library.Word" "HOL-Library.Multiset"
begin

unbundle bit_operations_syntax

section \<open>Package optional: the present/absent wrapper\<close>

text \<open>
  \<^verbatim>\<open>optional.Option[T]\<close> as \<^verbatim>\<open>cmap\<close> uses it (the version that has \<^verbatim>\<open>FromPair\<close>): a
  three-valued state and a value. An absent option holds the zero value of \<^verbatim>\<open>T\<close>,
  written \<open>0\<close> here.
\<close>

datatype state = stateAbsent | statePresent | stateNil

record 'v Option =
  state :: state
  val :: 'v

definition Some_opt :: "'v \<Rightarrow> 'v Option" where
  "Some_opt v = \<lparr>state = statePresent, val = v\<rparr>"

definition None_opt :: "('v::zero) Option" where
  "None_opt = \<lparr>state = stateAbsent, val = 0\<rparr>"

definition FromPair :: "('v::zero) \<Rightarrow> bool \<Rightarrow> 'v Option" where
  "FromPair v ok = (if \<not> ok then None_opt else Some_opt v)"

definition IsPresent :: "'v Option \<Rightarrow> bool" where
  "IsPresent o' = (state o' = statePresent)"

definition IsAbsent :: "'v Option \<Rightarrow> bool" where
  "IsAbsent o' = (state o' \<noteq> stateAbsent)"

text \<open>
  The older \<^verbatim>\<open>Option\<close> of the repository (a boolean \<^verbatim>\<open>isPresent\<close> and a value), which has
  no \<^verbatim>\<open>FromPair\<close> and which \<^verbatim>\<open>cmap\<close> therefore cannot be using.
\<close>

record 'v Option_old =
  isPresent :: bool
  val_old :: 'v

definition IsPresent_old :: "'v Option_old \<Rightarrow> bool" where
  "IsPresent_old o' = isPresent o'"

definition IsAbsent_old :: "'v Option_old \<Rightarrow> bool" where
  "IsAbsent_old o' = (\<not> isPresent o')"

section \<open>Package cmap: the sharded map\<close>

text \<open>
  A shard is a Go map, here a partial function; the lock is not modelled (every
  operation below is one critical section of one shard, or a sequence of them). The
  shards are held by pointer in the source; no two maps built by \<^verbatim>\<open>WithShards\<close> share
  one, so the shards are kept by value and an operation returns the updated map.
  Keys are compared by HOL equality, which is what \<^verbatim>\<open>==\<close> is on a key type without a
  floating-point component; the single-key operations below look a key up in one shard
  and are stated through that lookup. The map under an arbitrary \<^verbatim>\<open>==\<close> is modelled in
  its own section further down, where entries are counted. The seed is any type \<open>'s\<close>.
\<close>

datatype error =
    IndexOutOfRange
  | MakesliceLenOutOfRange
  | NilDereference
  | TypeAssertionFailed
  | NumFieldOfNonStruct

record ('k, 'v, 's) ConcurrentMap =
  shards :: "('k \<rightharpoonup> 'v) list"
  shardMask :: "32 word"
  hashFunc :: "'s \<Rightarrow> 'k \<Rightarrow> 32 word"
  seed :: 's

definition SHARD_COUNT :: "64 word" where
  "SHARD_COUNT = 32"

definition WithHash ::
  "('s \<Rightarrow> 'k \<Rightarrow> 32 word) \<Rightarrow> ('k, 'v, 's) ConcurrentMap \<Rightarrow> ('k, 'v, 's) ConcurrentMap" where
  "WithHash f m = m\<lparr>hashFunc := f\<rparr>"

definition WithSeed ::
  "'s \<Rightarrow> ('k, 'v, 's) ConcurrentMap \<Rightarrow> ('k, 'v, 's) ConcurrentMap" where
  "WithSeed sd m = m\<lparr>seed := sd\<rparr>"

text \<open>
  \<^verbatim>\<open>int\<close> is 64 bits wide; \<^verbatim>\<open>>>\<close> on it is the arithmetic shift and \<^verbatim>\<open><=\<close> the signed
  comparison.
\<close>

definition nextPowerOf2 :: "64 word \<Rightarrow> 64 word" where
  "nextPowerOf2 n =
     (if sint n \<le> 0 then 1
      else
        let n1 = n - 1;
            n2 = n1 OR signed_drop_bit 1 n1;
            n3 = n2 OR signed_drop_bit 2 n2;
            n4 = n3 OR signed_drop_bit 4 n3;
            n5 = n4 OR signed_drop_bit 8 n4;
            n6 = n5 OR signed_drop_bit 16 n5
        in n6 + 1)"

text \<open>
  \<^verbatim>\<open>WithShards\<close> takes, besides the hint and the options, the two values it obtains from
  outside the package: the hasher that \<^verbatim>\<open>hash.GetHashFunc[K]()\<close> derives for the key
  type, and the seed that \<^verbatim>\<open>maphash.MakeSeed()\<close> draws. \<^verbatim>\<open>make\<close> panics on a negative
  length.
\<close>

definition WithShards ::
  "64 word \<Rightarrow> (('k, 'v, 's) ConcurrentMap \<Rightarrow> ('k, 'v, 's) ConcurrentMap) list \<Rightarrow>
   ('s \<Rightarrow> 'k \<Rightarrow> 32 word) \<Rightarrow> 's \<Rightarrow> error + ('k, 'v, 's) ConcurrentMap" where
  "WithShards shardCount opts derived fresh =
     (let shardCount1 = (if sint shardCount \<le> 0 then SHARD_COUNT else shardCount);
          shardCount2 = nextPowerOf2 shardCount1
      in if sint shardCount2 < 0 then Inl MakesliceLenOutOfRange
         else
           let m = \<lparr>shards = replicate (unat shardCount2) Map.empty,
                    shardMask = ucast (shardCount2 - 1),
                    hashFunc = derived,
                    seed = fresh\<rparr>
           in Inr (foldl (\<lambda>m opt. opt m) m opts))"

definition New ::
  "(('k, 'v, 's) ConcurrentMap \<Rightarrow> ('k, 'v, 's) ConcurrentMap) list \<Rightarrow>
   ('s \<Rightarrow> 'k \<Rightarrow> 32 word) \<Rightarrow> 's \<Rightarrow> error + ('k, 'v, 's) ConcurrentMap" where
  "New opts derived fresh = WithShards SHARD_COUNT opts derived fresh"

text \<open>
  \<^verbatim>\<open>getShard\<close> returns a pointer to the shard; the model returns its index in the shard
  array. Indexing past the end of the array panics.
\<close>

definition getShard :: "('k, 'v, 's) ConcurrentMap \<Rightarrow> 'k \<Rightarrow> error + nat" where
  "getShard m key =
     (let hashVal = hashFunc m (seed m) key;
          index = unat (hashVal AND shardMask m)
      in if index < length (shards m) then Inr index else Inl IndexOutOfRange)"

text \<open>The two-valued map read \<^verbatim>\<open>val, ok := items[key]\<close>.\<close>

definition lookup2 :: "('k \<rightharpoonup> 'v) \<Rightarrow> 'k \<Rightarrow> ('v::zero) \<times> bool" where
  "lookup2 items key = (case items key of None \<Rightarrow> (0, False) | Some v \<Rightarrow> (v, True))"

definition setItems ::
  "('k, 'v, 's) ConcurrentMap \<Rightarrow> nat \<Rightarrow> ('k \<rightharpoonup> 'v) \<Rightarrow> ('k, 'v, 's) ConcurrentMap" where
  "setItems m i items = m\<lparr>shards := (shards m)[i := items]\<rparr>"


definition Get :: "('k, 'v::zero, 's) ConcurrentMap \<Rightarrow> 'k \<Rightarrow> error + 'v Option" where
  "Get m key =
     (case getShard m key of
        Inl e \<Rightarrow> Inl e
      | Inr i \<Rightarrow> (case lookup2 (shards m ! i) key of (v, ok) \<Rightarrow> Inr (FromPair v ok)))"

text \<open>\<^verbatim>\<open>Delete\<close> has no result value: the model returns the unit beside the new map.\<close>

definition Delete ::
  "('k, 'v, 's) ConcurrentMap \<Rightarrow> 'k \<Rightarrow> error + (unit \<times> ('k, 'v, 's) ConcurrentMap)" where
  "Delete m key =
     (case getShard m key of
        Inl e \<Rightarrow> Inl e
      | Inr i \<Rightarrow> Inr ((), setItems m i ((shards m ! i)(key := None))))"

definition Has :: "('k, 'v::zero, 's) ConcurrentMap \<Rightarrow> 'k \<Rightarrow> error + bool" where
  "Has m key = (case Get m key of Inl e \<Rightarrow> Inl e | Inr opt \<Rightarrow> Inr (IsPresent opt))"

definition GetOrSet ::
  "('k, 'v::zero, 's) ConcurrentMap \<Rightarrow> 'k \<Rightarrow> 'v \<Rightarrow>
   error + (('v \<times> bool) \<times> ('k, 'v, 's) ConcurrentMap)" where
  "GetOrSet m key v =
     (case getShard m key of
        Inl e \<Rightarrow> Inl e
      | Inr i \<Rightarrow>
          (case lookup2 (shards m ! i) key of
             (existingVal, ok) \<Rightarrow>
               if ok then Inr ((existingVal, True), m)
               else Inr ((v, False), setItems m i ((shards m ! i)(key \<mapsto> v)))))"


definition Remove ::
  "('k, 'v::zero, 's) ConcurrentMap \<Rightarrow> 'k \<Rightarrow>
   error + ('v Option \<times> ('k, 'v, 's) ConcurrentMap)" where
  "Remove m key =
     (case getShard m key of
        Inl e \<Rightarrow> Inl e
      | Inr i \<Rightarrow>
          (case lookup2 (shards m ! i) key of
             (v, ok) \<Rightarrow>
               let m' = (if ok then setItems m i ((shards m ! i)(key := None)) else m)
               in Inr (FromPair v ok, m')))"


definition Clear :: "('k, 'v, 's) ConcurrentMap \<Rightarrow> ('k, 'v, 's) ConcurrentMap" where
  "Clear m = m\<lparr>shards := map (\<lambda>_. Map.empty) (shards m)\<rparr>"

subsection \<open>Notions used to state the properties\<close>

text \<open>
  A map is in range when every index that \<^verbatim>\<open>getShard\<close> can compute lies inside the
  shard array, so that no operation panics. \<open>shardIndex\<close> is the index \<^verbatim>\<open>getShard\<close>
  computes, and \<open>items_of\<close> the entry a key has in its own shard.
\<close>

definition inRange :: "('k, 'v, 's) ConcurrentMap \<Rightarrow> bool" where
  "inRange m = (unat (shardMask m) < length (shards m))"

definition shardIndex :: "('k, 'v, 's) ConcurrentMap \<Rightarrow> 'k \<Rightarrow> nat" where
  "shardIndex m key = unat (hashFunc m (seed m) key AND shardMask m)"

definition items_of :: "('k, 'v, 's) ConcurrentMap \<Rightarrow> 'k \<Rightarrow> 'v option" where
  "items_of m key = (shards m ! shardIndex m key) key"

subsection \<open>Concrete maps\<close>

text \<open>
  Two maps over natural-number keys and values, with two shards and the hasher
  \<open>seed + key\<close>: the empty one, and the one holding \<open>1 \<mapsto> 10\<close>.
\<close>

definition demoHash :: "nat \<Rightarrow> nat \<Rightarrow> 32 word" where
  "demoHash s k = of_nat (s + k)"

definition demo :: "(nat, nat, nat) ConcurrentMap" where
  "demo = \<lparr>shards = [Map.empty, Map.empty], shardMask = 1, hashFunc = demoHash, seed = 0\<rparr>"

definition demo1 :: "(nat, nat, nat) ConcurrentMap" where
  "demo1 = \<lparr>shards = [Map.empty, [1 \<mapsto> 10]], shardMask = 1, hashFunc = demoHash, seed = 0\<rparr>"

subsection \<open>Sequences of calls\<close>




text \<open>
  The keys a map holds; the invariant that every shard is finite and holds only keys
  that route to it; the options that leave the shard array and the mask alone (as
  \<^verbatim>\<open>WithHash\<close> and \<^verbatim>\<open>WithSeed\<close> do); and two maps that route alike.
\<close>

definition keysOf :: "('k, 'v, 's) ConcurrentMap \<Rightarrow> 'k set" where
  "keysOf m = {k. items_of m k \<noteq> None}"

definition placed :: "('k, 'v, 's) ConcurrentMap \<Rightarrow> bool" where
  "placed m = (inRange m \<and>
     (\<forall>i < length (shards m). finite (dom (shards m ! i)) \<and>
        (\<forall>k \<in> dom (shards m ! i). shardIndex m k = i)))"

definition keepsShards ::
  "(('k, 'v, 's) ConcurrentMap \<Rightarrow> ('k, 'v, 's) ConcurrentMap) \<Rightarrow> bool" where
  "keepsShards opt = (\<forall>m. shards (opt m) = shards m \<and> shardMask (opt m) = shardMask m)"

definition sameRouting ::
  "('k, 'v, 's) ConcurrentMap \<Rightarrow> ('k, 'v, 's) ConcurrentMap \<Rightarrow> bool" where
  "sameRouting m m' = (seed m' = seed m \<and> hashFunc m' = hashFunc m \<and>
     shardMask m' = shardMask m \<and> length (shards m') = length (shards m))"


section \<open>Package hash: deriving a hasher from the key type\<close>

text \<open>
  \<^verbatim>\<open>hash/maphash\<close> belongs to the Go library, not to this repository: its function from a
  seed and a byte sequence to a 64-bit digest is a parameter \<open>mh\<close> of everything below
  (\<^verbatim>\<open>maphash.Bytes\<close>, \<^verbatim>\<open>maphash.String\<close> and a \<^verbatim>\<open>maphash.Hash\<close> that is seeded, written
  once and summed are that one function). A string is its bytes. A floating-point
  value is its bit pattern, which is all the hashers read of it. \<^verbatim>\<open>int\<close>, \<^verbatim>\<open>uint\<close> and
  \<^verbatim>\<open>uintptr\<close> are 64 bits wide and memory is little-endian.
\<close>

type_synonym bytes = "8 word list"

type_synonym 's maphash = "'s \<Rightarrow> bytes \<Rightarrow> 64 word"

text \<open>\<^verbatim>\<open>binary.LittleEndian.PutUintN\<close> into an array of \<open>n\<close> bytes.\<close>

definition leBytes :: "nat \<Rightarrow> 'a::len word \<Rightarrow> bytes" where
  "leBytes n w = map (\<lambda>i. ucast (drop_bit (8 * i) w)) [0..<n]"

definition StringHasher :: "'s maphash \<Rightarrow> 's \<Rightarrow> bytes \<Rightarrow> 32 word" where
  "StringHasher mh sd s = ucast (mh sd s)"

definition IntHasher :: "'s maphash \<Rightarrow> 's \<Rightarrow> 64 word \<Rightarrow> 32 word" where
  "IntHasher mh sd n = ucast (mh sd (leBytes 8 n))"

definition Int8Hasher :: "'s maphash \<Rightarrow> 's \<Rightarrow> 8 word \<Rightarrow> 32 word" where
  "Int8Hasher mh sd n = ucast (mh sd [n])"

definition Int16Hasher :: "'s maphash \<Rightarrow> 's \<Rightarrow> 16 word \<Rightarrow> 32 word" where
  "Int16Hasher mh sd n = ucast (mh sd (leBytes 2 n))"

definition Int32Hasher :: "'s maphash \<Rightarrow> 's \<Rightarrow> 32 word \<Rightarrow> 32 word" where
  "Int32Hasher mh sd n = ucast (mh sd (leBytes 4 n))"

definition Int64Hasher :: "'s maphash \<Rightarrow> 's \<Rightarrow> 64 word \<Rightarrow> 32 word" where
  "Int64Hasher mh sd n = ucast (mh sd (leBytes 8 n))"

definition UintHasher :: "'s maphash \<Rightarrow> 's \<Rightarrow> 64 word \<Rightarrow> 32 word" where
  "UintHasher mh sd n = ucast (mh sd (leBytes 8 n))"

definition Uint8Hasher :: "'s maphash \<Rightarrow> 's \<Rightarrow> 8 word \<Rightarrow> 32 word" where
  "Uint8Hasher mh sd n = ucast (mh sd [n])"

definition Uint16Hasher :: "'s maphash \<Rightarrow> 's \<Rightarrow> 16 word \<Rightarrow> 32 word" where
  "Uint16Hasher mh sd n = ucast (mh sd (leBytes 2 n))"

definition Uint32Hasher :: "'s maphash \<Rightarrow> 's \<Rightarrow> 32 word \<Rightarrow> 32 word" where
  "Uint32Hasher mh sd n = ucast (mh sd (leBytes 4 n))"

definition Uint64Hasher :: "'s maphash \<Rightarrow> 's \<Rightarrow> 64 word \<Rightarrow> 32 word" where
  "Uint64Hasher mh sd n = ucast (mh sd (leBytes 8 n))"

definition UintptrHasher :: "'s maphash \<Rightarrow> 's \<Rightarrow> 64 word \<Rightarrow> 32 word" where
  "UintptrHasher mh sd n = ucast (mh sd (leBytes 8 n))"

definition Float32Hasher :: "'s maphash \<Rightarrow> 's \<Rightarrow> 32 word \<Rightarrow> 32 word" where
  "Float32Hasher mh sd f = ucast (mh sd (leBytes 4 f))"

definition Float64Hasher :: "'s maphash \<Rightarrow> 's \<Rightarrow> 64 word \<Rightarrow> 32 word" where
  "Float64Hasher mh sd f = ucast (mh sd (leBytes 8 f))"

definition BoolHasher :: "'s maphash \<Rightarrow> 's \<Rightarrow> bool \<Rightarrow> 32 word" where
  "BoolHasher mh sd v = (let b = (if v then 1 else 0) in ucast (mh sd [b]))"

subsection \<open>Types as reflection shows them\<close>

datatype Kind =
    KInvalid | KBool | KInt | KInt8 | KInt16 | KInt32 | KInt64
  | KUint | KUint8 | KUint16 | KUint32 | KUint64 | KUintptr
  | KFloat32 | KFloat64 | KComplex64 | KComplex128
  | KArray | KChan | KFunc | KInterface | KMap | KPointer | KSlice
  | KString | KStruct | KUnsafePointer

text \<open>
  A \<^verbatim>\<open>reflect.Type\<close>: its kind and, for a struct, its fields with their names, offsets
  and types. \<^verbatim>\<open>NumField\<close> panics on a type that is not a struct.
\<close>

datatype rtype = RType (Kind: Kind) (Fields: "StructField list")
and StructField = StructField (Name: string) (Offset: "64 word") (Type: rtype)

record fieldInfo =
  offset :: "64 word"
  kind :: Kind

text \<open>The kinds of the first case of the switch in \<^verbatim>\<open>flattenStruct\<close>, in its order.\<close>

definition hashedKinds :: "Kind list" where
  "hashedKinds =
     [KString, KInt, KInt8, KInt16, KInt32, KInt64,
      KUint, KUint8, KUint16, KUint32, KUint64, KUintptr,
      KFloat32, KFloat64, KBool, KPointer, KUnsafePointer]"

fun flattenStruct :: "rtype \<Rightarrow> 64 word \<Rightarrow> error + fieldInfo list"
  and flattenLoop :: "StructField list \<Rightarrow> 64 word \<Rightarrow> error + fieldInfo list" where
  "flattenStruct (RType k fs) baseOffset =
     (if k = KStruct then flattenLoop fs baseOffset else Inl NumFieldOfNonStruct)"
| "flattenLoop [] baseOffset = Inr []"
| "flattenLoop (StructField name off t # rest) baseOffset =
     (if name = ''_'' then flattenLoop rest baseOffset
      else if Kind t \<in> set hashedKinds then
        map_sum id (Cons \<lparr>offset = baseOffset + off, kind = Kind t\<rparr>)
          (flattenLoop rest baseOffset)
      else if Kind t = KStruct then
        (case flattenStruct t (baseOffset + off) of
           Inl e \<Rightarrow> Inl e
         | Inr sub \<Rightarrow> map_sum id (append sub) (flattenLoop rest baseOffset))
      else flattenLoop rest baseOffset)"

subsection \<open>Reading a key through an unsafe pointer\<close>

text \<open>
  Memory maps addresses to bytes. A word is read from consecutive bytes, least
  significant first; a string field is a header of data pointer and length, and the
  string is the bytes the header points to; a \<^verbatim>\<open>bool\<close> is true when its byte is not 0.
\<close>

type_synonym memory = "64 word \<Rightarrow> 8 word"

definition loadBytes :: "memory \<Rightarrow> 64 word \<Rightarrow> nat \<Rightarrow> bytes" where
  "loadBytes mem a n = map (\<lambda>i. mem (a + of_nat i)) [0..<n]"

definition leWord :: "bytes \<Rightarrow> 'a::len word" where
  "leWord bs = foldr (\<lambda>b acc. ucast b OR push_bit 8 acc) bs 0"

definition load8 :: "memory \<Rightarrow> 64 word \<Rightarrow> 8 word" where
  "load8 mem a = mem a"

definition load16 :: "memory \<Rightarrow> 64 word \<Rightarrow> 16 word" where
  "load16 mem a = leWord (loadBytes mem a 2)"

definition load32 :: "memory \<Rightarrow> 64 word \<Rightarrow> 32 word" where
  "load32 mem a = leWord (loadBytes mem a 4)"

definition load64 :: "memory \<Rightarrow> 64 word \<Rightarrow> 64 word" where
  "load64 mem a = leWord (loadBytes mem a 8)"

definition loadBool :: "memory \<Rightarrow> 64 word \<Rightarrow> bool" where
  "loadBool mem a = (mem a \<noteq> 0)"

definition loadString :: "memory \<Rightarrow> 64 word \<Rightarrow> bytes" where
  "loadString mem a = loadBytes mem (load64 mem a) (unat (load64 mem (a + 8)))"

text \<open>
  The switch in the loop of the closure that \<^verbatim>\<open>CreateStructHasher\<close> returns: the digest
  of one field, read at \<open>fieldPtr\<close> as its kind says. \<^verbatim>\<open>fHash\<close> starts at 0.
\<close>

definition fieldHash :: "'s maphash \<Rightarrow> 's \<Rightarrow> memory \<Rightarrow> 64 word \<Rightarrow> Kind \<Rightarrow> 32 word" where
  "fieldHash mh sd mem fieldPtr k =
     (case k of
        KString \<Rightarrow> StringHasher mh sd (loadString mem fieldPtr)
      | KInt \<Rightarrow> IntHasher mh sd (load64 mem fieldPtr)
      | KInt8 \<Rightarrow> Int8Hasher mh sd (load8 mem fieldPtr)
      | KInt16 \<Rightarrow> Int16Hasher mh sd (load16 mem fieldPtr)
      | KInt32 \<Rightarrow> Int32Hasher mh sd (load32 mem fieldPtr)
      | KInt64 \<Rightarrow> Int64Hasher mh sd (load64 mem fieldPtr)
      | KUint \<Rightarrow> UintHasher mh sd (load64 mem fieldPtr)
      | KUint8 \<Rightarrow> Uint8Hasher mh sd (load8 mem fieldPtr)
      | KUint16 \<Rightarrow> Uint16Hasher mh sd (load16 mem fieldPtr)
      | KUint32 \<Rightarrow> Uint32Hasher mh sd (load32 mem fieldPtr)
      | KUint64 \<Rightarrow> Uint64Hasher mh sd (load64 mem fieldPtr)
      | KUintptr \<Rightarrow> UintptrHasher mh sd (load64 mem fieldPtr)
      | KFloat32 \<Rightarrow> Float32Hasher mh sd (load32 mem fieldPtr)
      | KFloat64 \<Rightarrow> Float64Hasher mh sd (load64 mem fieldPtr)
      | KBool \<Rightarrow> BoolHasher mh sd (loadBool mem fieldPtr)
      | KPointer \<Rightarrow> ucast (mh sd (leBytes 8 (load64 mem fieldPtr)))
      | KUnsafePointer \<Rightarrow> ucast (mh sd (leBytes 8 (load64 mem fieldPtr)))
      | _ \<Rightarrow> 0)"

fun hashLoop ::
  "'s maphash \<Rightarrow> 's \<Rightarrow> memory \<Rightarrow> 64 word \<Rightarrow> fieldInfo list \<Rightarrow> 32 word \<Rightarrow> 32 word" where
  "hashLoop mh sd mem p [] h = h"
| "hashLoop mh sd mem p (f # descs) h =
     (let fieldPtr = p + offset f;
          fHash = fieldHash mh sd mem fieldPtr (kind f)
      in hashLoop mh sd mem p descs
           (h XOR (fHash + 0x9e3779b9 + push_bit 6 h + drop_bit 2 h)))"

subsection \<open>Keys and hashers\<close>

text \<open>
  What the hashers can observe of a key of type \<^verbatim>\<open>K\<close>: the value a type assertion to a
  predeclared type yields (\<open>DOther\<close> when \<^verbatim>\<open>K\<close> is not one of them, so that the assertion
  panics), the \<^verbatim>\<open>Hash\<close> and \<^verbatim>\<open>String\<close> methods of the key when its type has them, and the
  memory and address at which the closure's copy of the key is stored.
\<close>

datatype Dyn =
    DString bytes | DInt "64 word" | DInt8 "8 word" | DInt16 "16 word" | DInt32 "32 word"
  | DInt64 "64 word" | DUint "64 word" | DUint8 "8 word" | DUint16 "16 word"
  | DUint32 "32 word" | DUint64 "64 word" | DUintptr "64 word"
  | DFloat32 "32 word" | DFloat64 "64 word" | DBool bool | DOther

record 's Key =
  dyn :: Dyn
  HashM :: "('s \<Rightarrow> 32 word) option"
  StringM :: "bytes option"
  keyMem :: memory
  keyAddr :: "64 word"

type_synonym 's Hasher = "'s \<Rightarrow> 's Key \<Rightarrow> error + 32 word"

text \<open>
  The key type \<^verbatim>\<open>K\<close>: whether it is one of Go's predeclared types itself (the only types
  the cases of a type switch on \<^verbatim>\<open>string\<close>, \<^verbatim>\<open>int\<close>, ... match), and what
  \<^verbatim>\<open>reflect.TypeOf\<close> shows of it.
\<close>

record GoType =
  isPredeclared :: bool
  reflectType :: rtype

definition CreateStructHasher :: "'s maphash \<Rightarrow> rtype \<Rightarrow> error + 's Hasher" where
  "CreateStructHasher mh t =
     (case flattenStruct t 0 of
        Inl e \<Rightarrow> Inl e
      | Inr descs \<Rightarrow>
          Inr (\<lambda>sd key. Inr (hashLoop mh sd (keyMem key) (keyAddr key) descs 0)))"

text \<open>
  The closure of the default case. A seeded \<^verbatim>\<open>maphash.Hash\<close> to which the text of
  \<^verbatim>\<open>String()\<close> is written, or nothing, sums to \<open>mh\<close> of these bytes.
\<close>

definition fallbackHasher :: "'s maphash \<Rightarrow> 's Hasher" where
  "fallbackHasher mh sd key =
     (case HashM key of
        Some hashMethod \<Rightarrow> Inr (hashMethod sd)
      | None \<Rightarrow>
          (case StringM key of
             Some text \<Rightarrow> Inr (ucast (mh sd text))
           | None \<Rightarrow> Inr (ucast (mh sd []))))"

text \<open>
  \<^verbatim>\<open>GetHashFunc\<close>. The zero value of an interface type is nil, for which
  \<^verbatim>\<open>reflect.TypeOf\<close> returns nil, and \<^verbatim>\<open>t.Kind()\<close> then panics.
\<close>

definition GetHashFunc :: "'s maphash \<Rightarrow> GoType \<Rightarrow> error + 's Hasher" where
  "GetHashFunc mh K =
     (let p = isPredeclared K; k = Kind (reflectType K) in
      if p \<and> k = KString then
        Inr (\<lambda>sd key. case dyn key of DString s \<Rightarrow> Inr (StringHasher mh sd s)
                         | _ \<Rightarrow> Inl TypeAssertionFailed)
      else if p \<and> k = KInt then
        Inr (\<lambda>sd key. case dyn key of DInt n \<Rightarrow> Inr (IntHasher mh sd n)
                         | _ \<Rightarrow> Inl TypeAssertionFailed)
      else if p \<and> k = KInt8 then
        Inr (\<lambda>sd key. case dyn key of DInt8 n \<Rightarrow> Inr (Int8Hasher mh sd n)
                         | _ \<Rightarrow> Inl TypeAssertionFailed)
      else if p \<and> k = KInt16 then
        Inr (\<lambda>sd key. case dyn key of DInt16 n \<Rightarrow> Inr (Int16Hasher mh sd n)
                         | _ \<Rightarrow> Inl TypeAssertionFailed)
      else if p \<and> k = KInt32 then
        Inr (\<lambda>sd key. case dyn key of DInt32 n \<Rightarrow> Inr (Int32Hasher mh sd n)
                         | _ \<Rightarrow> Inl TypeAssertionFailed)
      else if p \<and> k = KInt64 then
        Inr (\<lambda>sd key. case dyn key of DInt64 n \<Rightarrow> Inr (Int64Hasher mh sd n)
                         | _ \<Rightarrow> Inl TypeAssertionFailed)
      else if p \<and> k = KUint then
        Inr (\<lambda>sd key. case dyn key of DUint n \<Rightarrow> Inr (UintHasher mh sd n)
                         | _ \<Rightarrow> Inl TypeAssertionFailed)
      else if p \<and> k = KUint8 then
        Inr (\<lambda>sd key. case dyn key of DUint8 n \<Rightarrow> Inr (Uint8Hasher mh sd n)
                         | _ \<Rightarrow> Inl TypeAssertionFailed)
      else if p \<and> k = KUint16 then
        Inr (\<lambda>sd key. case dyn key of DUint16 n \<Rightarrow> Inr (Uint16Hasher mh sd n)
                         | _ \<Rightarrow> Inl TypeAssertionFailed)
      else if p \<and> k = KUint32 then
        Inr (\<lambda>sd key. case dyn key of DUint32 n \<Rightarrow> Inr (Uint32Hasher mh sd n)
                         | _ \<Rightarrow> Inl TypeAssertionFailed)
      else if p \<and> k = KUint64 then
        Inr (\<lambda>sd key. case dyn key of DUint64 n \<Rightarrow> Inr (Uint64Hasher mh sd n)
                         | _ \<Rightarrow> Inl TypeAssertionFailed)
      else if p \<and> k = KUintptr then
        Inr (\<lambda>sd key. case dyn key of DUintptr n \<Rightarrow> Inr (UintptrHasher mh sd n)
                         | _ \<Rightarrow> Inl TypeAssertionFailed)
      else if p \<and> k = KFloat32 then
        Inr (\<lambda>sd key. case dyn key of DFloat32 f \<Rightarrow> Inr (Float32Hasher mh sd f)
                         | _ \<Rightarrow> Inl TypeAssertionFailed)
      else if p \<and> k = KFloat64 then
        Inr (\<lambda>sd key. case dyn key of DFloat64 f \<Rightarrow> Inr (Float64Hasher mh sd f)
                         | _ \<Rightarrow> Inl TypeAssertionFailed)
      else if p \<and> k = KBool then
        Inr (\<lambda>sd key. case dyn key of DBool v \<Rightarrow> Inr (BoolHasher mh sd v)
                         | _ \<Rightarrow> Inl TypeAssertionFailed)
      else if k = KInterface then Inl NilDereference
      else if k = KStruct then CreateStructHasher mh (reflectType K)
      else Inr (fallbackHasher mh))"

subsection \<open>Notions used to state the properties of the hashers\<close>

text \<open>
  The mixing step in the words of the specification, and the value a field holds as
  its kind reads it.
\<close>

definition mixStep :: "32 word \<Rightarrow> 32 word \<Rightarrow> 32 word" where
  "mixStep h fieldDigest = h XOR (fieldDigest + 0x9e3779b9 + push_bit 6 h + drop_bit 2 h)"

definition fieldDigests ::
  "'s maphash \<Rightarrow> 's \<Rightarrow> 's Key \<Rightarrow> fieldInfo list \<Rightarrow> 32 word list" where
  "fieldDigests mh sd key descs =
     map (\<lambda>f. fieldHash mh sd (keyMem key) (keyAddr key + offset f) (kind f)) descs"





subsection \<open>Concrete types and keys\<close>

text \<open>
  A byte hash to compute with (seed plus the sum of the bytes), and the key type
  \<^verbatim>\<open>type Rec struct { ID int; P *int; Any interface{}; In struct { _ int32; B bool } }\<close>
  with a method \<^verbatim>\<open>Hash\<close> that returns 42. \<open>keyA\<close> and \<open>keyB\<close> are two keys of this type
  that differ in the pointer field only; \<open>keyC\<close> differs from \<open>keyA\<close> in the interface
  field and in the blank field only. \<open>userIDType\<close> is \<^verbatim>\<open>type UserID int\<close> with the same
  method, and \<open>keyU\<close> a key of it.
\<close>

definition toyHash :: "nat maphash" where
  "toyHash sd bs = of_nat sd + sum_list (map ucast bs)"

definition answer42 :: "nat \<Rightarrow> 32 word" where
  "answer42 sd = 42"

definition recStruct :: rtype where
  "recStruct = RType KStruct
     [StructField ''ID'' 0 (RType KInt []),
      StructField ''P'' 8 (RType KPointer []),
      StructField ''Any'' 16 (RType KInterface []),
      StructField ''In'' 32 (RType KStruct
        [StructField ''_'' 0 (RType KInt32 []),
         StructField ''B'' 4 (RType KBool [])])]"

definition recType :: GoType where
  "recType = \<lparr>isPredeclared = False, reflectType = recStruct\<rparr>"

definition userIDType :: GoType where
  "userIDType = \<lparr>isPredeclared = False, reflectType = RType KInt []\<rparr>"

definition keyA :: "nat Key" where
  "keyA = \<lparr>dyn = DOther, HashM = Some answer42, StringM = None,
           keyMem = (\<lambda>a. 0), keyAddr = 0\<rparr>"



definition keyU :: "nat Key" where
  "keyU = \<lparr>dyn = DOther, HashM = Some answer42, StringM = None,
           keyMem = (\<lambda>a. 7), keyAddr = 0\<rparr>"


section \<open>The sharded map under Go's key equality\<close>

text \<open>
  For counting entries the comparison of keys matters. A Go \<^verbatim>\<open>map[K]V\<close> compares keys
  with \<^verbatim>\<open>==\<close>, which for a key type with a floating-point component is not the identity
  on values: \<^verbatim>\<open>+0.0 == -0.0\<close>, and a NaN is not \<^verbatim>\<open>==\<close> to itself. Here a shard is the list
  of the entries of its map (the order has no meaning) and \<^verbatim>\<open>==\<close> is a parameter \<open>eq\<close>,
  applied to the stored key and the key of the call. \<^verbatim>\<open>items[key] = value\<close> overwrites the
  entry whose key is \<^verbatim>\<open>==\<close> and adds an entry when there is none; \<^verbatim>\<open>delete(items, key)\<close>
  removes the entry whose key is \<^verbatim>\<open>==\<close>; \<^verbatim>\<open>len(items)\<close> is the number of entries. The
  hasher still sees the key itself.
\<close>

definition mapassign ::
  "('k \<Rightarrow> 'k \<Rightarrow> bool) \<Rightarrow> ('k \<times> 'v) list \<Rightarrow> 'k \<Rightarrow> 'v \<Rightarrow> ('k \<times> 'v) list" where
  "mapassign eq items key v =
     (if list_ex (\<lambda>e. eq (fst e) key) items
      then map (\<lambda>e. if eq (fst e) key then (fst e, v) else e) items
      else items @ [(key, v)])"

definition mapdelete ::
  "('k \<Rightarrow> 'k \<Rightarrow> bool) \<Rightarrow> ('k \<times> 'v) list \<Rightarrow> 'k \<Rightarrow> ('k \<times> 'v) list" where
  "mapdelete eq items key = filter (\<lambda>e. \<not> eq (fst e) key) items"

record ('k, 'v, 's) ConcurrentMap_eq =
  shards_eq :: "('k \<times> 'v) list list"
  shardMask_eq :: "32 word"
  hashFunc_eq :: "'s \<Rightarrow> 'k \<Rightarrow> 32 word"
  seed_eq :: 's

definition WithHash_eq ::
  "('s \<Rightarrow> 'k \<Rightarrow> 32 word) \<Rightarrow> ('k, 'v, 's) ConcurrentMap_eq \<Rightarrow> ('k, 'v, 's) ConcurrentMap_eq" where
  "WithHash_eq f m = m\<lparr>hashFunc_eq := f\<rparr>"

definition WithSeed_eq ::
  "'s \<Rightarrow> ('k, 'v, 's) ConcurrentMap_eq \<Rightarrow> ('k, 'v, 's) ConcurrentMap_eq" where
  "WithSeed_eq sd m = m\<lparr>seed_eq := sd\<rparr>"

definition WithShards_eq ::
  "64 word \<Rightarrow> (('k, 'v, 's) ConcurrentMap_eq \<Rightarrow> ('k, 'v, 's) ConcurrentMap_eq) list \<Rightarrow>
   ('s \<Rightarrow> 'k \<Rightarrow> 32 word) \<Rightarrow> 's \<Rightarrow> error + ('k, 'v, 's) ConcurrentMap_eq" where
  "WithShards_eq shardCount opts derived fresh =
     (let shardCount1 = (if sint shardCount \<le> 0 then SHARD_COUNT else shardCount);
          shardCount2 = nextPowerOf2 shardCount1
      in if sint shardCount2 < 0 then Inl MakesliceLenOutOfRange
         else
           let m = \<lparr>shards_eq = replicate (unat shardCount2) [],
                    shardMask_eq = ucast (shardCount2 - 1),
                    hashFunc_eq = derived,
                    seed_eq = fresh\<rparr>
           in Inr (foldl (\<lambda>m opt. opt m) m opts))"

definition getShard_eq :: "('k, 'v, 's) ConcurrentMap_eq \<Rightarrow> 'k \<Rightarrow> error + nat" where
  "getShard_eq m key =
     (let hashVal = hashFunc_eq m (seed_eq m) key;
          index = unat (hashVal AND shardMask_eq m)
      in if index < length (shards_eq m) then Inr index else Inl IndexOutOfRange)"

definition Set_eq ::
  "('k \<Rightarrow> 'k \<Rightarrow> bool) \<Rightarrow> ('k, 'v, 's) ConcurrentMap_eq \<Rightarrow> 'k \<Rightarrow> 'v \<Rightarrow>
   error + ('k, 'v, 's) ConcurrentMap_eq" where
  "Set_eq eq m key v =
     (case getShard_eq m key of
        Inl e \<Rightarrow> Inl e
      | Inr i \<Rightarrow>
          Inr (m\<lparr>shards_eq := (shards_eq m)[i := mapassign eq (shards_eq m ! i) key v]\<rparr>))"

definition Delete_eq ::
  "('k \<Rightarrow> 'k \<Rightarrow> bool) \<Rightarrow> ('k, 'v, 's) ConcurrentMap_eq \<Rightarrow> 'k \<Rightarrow>
   error + (unit \<times> ('k, 'v, 's) ConcurrentMap_eq)" where
  "Delete_eq eq m key =
     (case getShard_eq m key of
        Inl e \<Rightarrow> Inl e
      | Inr i \<Rightarrow>
          Inr ((), m\<lparr>shards_eq := (shards_eq m)[i := mapdelete eq (shards_eq m ! i) key]\<rparr>))"

text \<open>\<^verbatim>\<open>Len\<close> adds up \<^verbatim>\<open>len(shard.items)\<close> over the shards.\<close>

fun Len_loop :: "('k \<times> 'v) list list \<Rightarrow> nat \<Rightarrow> nat" where
  "Len_loop [] count' = count'"
| "Len_loop (shard # rest) count' = Len_loop rest (count' + length shard)"

definition Len :: "('k, 'v, 's) ConcurrentMap_eq \<Rightarrow> nat" where
  "Len m = Len_loop (shards_eq m) 0"

subsection \<open>Sequences of Set and Delete calls\<close>

datatype ('k, 'v) call = CallSet 'k 'v | CallDelete 'k

fun apply_call ::
  "('k \<Rightarrow> 'k \<Rightarrow> bool) \<Rightarrow> ('k, 'v, 's) ConcurrentMap_eq \<Rightarrow> ('k, 'v) call \<Rightarrow>
   error + ('k, 'v, 's) ConcurrentMap_eq" where
  "apply_call eq m (CallSet k v) = Set_eq eq m k v"
| "apply_call eq m (CallDelete k) = map_sum id snd (Delete_eq eq m k)"

fun run_calls ::
  "('k \<Rightarrow> 'k \<Rightarrow> bool) \<Rightarrow> ('k, 'v, 's) ConcurrentMap_eq \<Rightarrow> ('k, 'v) call list \<Rightarrow>
   error + ('k, 'v, 's) ConcurrentMap_eq" where
  "run_calls eq m [] = Inr m"
| "run_calls eq m (c # cs) =
     (case apply_call eq m c of Inl e \<Rightarrow> Inl e | Inr m' \<Rightarrow> run_calls eq m' cs)"

text \<open>
  The surviving keys in the words of the claim: the distinct keys that were set and not
  deleted afterwards. The caller's key is the same key as a stored one when it is that
  very value or \<^verbatim>\<open>==\<close> to it. \<open>survivors eq cs S\<close> is what a sequence of calls leaves of the
  keys \<open>S\<close>.
\<close>

definition sameKey :: "('k \<Rightarrow> 'k \<Rightarrow> bool) \<Rightarrow> 'k \<Rightarrow> 'k \<Rightarrow> bool" where
  "sameKey eq a b = (a = b \<or> eq a b)"

fun survivors :: "('k \<Rightarrow> 'k \<Rightarrow> bool) \<Rightarrow> ('k, 'v) call list \<Rightarrow> 'k list \<Rightarrow> 'k list" where
  "survivors eq [] S = S"
| "survivors eq (CallSet k v # cs) S =
     survivors eq cs (if list_ex (\<lambda>k'. sameKey eq k' k) S then S else S @ [k])"
| "survivors eq (CallDelete k # cs) S =
     survivors eq cs (filter (\<lambda>k'. \<not> sameKey eq k' k) S)"

text \<open>
  The notions the count rests on: the index \<^verbatim>\<open>getShard\<close> computes, a map whose mask lies
  inside its shard array, the keys of the entries of all shards, every entry sitting
  in the shard its key routes to, options that leave the shard array and the mask
  alone, and a hasher that gives keys that are \<^verbatim>\<open>==\<close> the same digest.
\<close>

definition shardIndex_eq :: "('k, 'v, 's) ConcurrentMap_eq \<Rightarrow> 'k \<Rightarrow> nat" where
  "shardIndex_eq m key = unat (hashFunc_eq m (seed_eq m) key AND shardMask_eq m)"

definition inRange_eq :: "('k, 'v, 's) ConcurrentMap_eq \<Rightarrow> bool" where
  "inRange_eq m = (unat (shardMask_eq m) < length (shards_eq m))"

definition allKeys :: "('k, 'v, 's) ConcurrentMap_eq \<Rightarrow> 'k list" where
  "allKeys m = concat (map (map fst) (shards_eq m))"

definition placed_eq :: "('k, 'v, 's) ConcurrentMap_eq \<Rightarrow> bool" where
  "placed_eq m =
     (\<forall>i < length (shards_eq m). \<forall>e \<in> set (shards_eq m ! i). shardIndex_eq m (fst e) = i)"

definition keepsShards_eq ::
  "(('k, 'v, 's) ConcurrentMap_eq \<Rightarrow> ('k, 'v, 's) ConcurrentMap_eq) \<Rightarrow> bool" where
  "keepsShards_eq opt =
     (\<forall>m. shards_eq (opt m) = shards_eq m \<and> shardMask_eq (opt m) = shardMask_eq m)"

definition respectsEq :: "('k \<Rightarrow> 'k \<Rightarrow> bool) \<Rightarrow> ('k, 'v, 's) ConcurrentMap_eq \<Rightarrow> bool" where
  "respectsEq eq m =
     (\<forall>a b. eq a b \<longrightarrow> hashFunc_eq m (seed_eq m) a = hashFunc_eq m (seed_eq m) b)"

subsection \<open>Keys of type float64\<close>

text \<open>
  A \<^verbatim>\<open>float64\<close> key is its bit pattern. It is a NaN when its exponent bits are all set
  and its fraction is not 0; two keys are \<^verbatim>\<open>==\<close> when neither is a NaN and they are the
  same pattern or both a zero (of either sign).
\<close>

definition isNaN64 :: "64 word \<Rightarrow> bool" where
  "isNaN64 w =
     (w AND 0x7FF0000000000000 = 0x7FF0000000000000 \<and> w AND 0x000FFFFFFFFFFFFF \<noteq> 0)"

definition float64_eq :: "64 word \<Rightarrow> 64 word \<Rightarrow> bool" where
  "float64_eq a b =
     (\<not> isNaN64 a \<and> \<not> isNaN64 b \<and>
      (a = b \<or> (a AND 0x7FFFFFFFFFFFFFFF = 0 \<and> b AND 0x7FFFFFFFFFFFFFFF = 0)))"

definition nan64 :: "64 word" where
  "nan64 = 0x7FF8000000000001"

definition posZero64 :: "64 word" where
  "posZero64 = 0"

definition negZero64 :: "64 word" where
  "negZero64 = 0x8000000000000000"

text \<open>
  Keys that are natural numbers compared modulo 8, with a hasher that respects the
  comparison, and a sequence of calls on them.
\<close>

definition eqMod8 :: "nat \<Rightarrow> nat \<Rightarrow> bool" where
  "eqMod8 a b = (a mod 8 = b mod 8)"

definition hashMod8 :: "nat \<Rightarrow> nat \<Rightarrow> 32 word" where
  "hashMod8 sd k = of_nat (sd + k mod 8)"

definition callsMod8 :: "(nat, nat) call list" where
  "callsMod8 = [CallSet 1 10, CallSet 9 20, CallSet 2 5, CallDelete 10, CallDelete 7]"

definition modMap :: "(nat, nat, nat) ConcurrentMap_eq" where
  "modMap = \<lparr>shards_eq = [[], [], [], []], shardMask_eq = 3, hashFunc_eq = hashMod8,
             seed_eq = 0\<rparr>"

(* ------------------------------------------------------------------ *)

section \<open>Properties of the present/absent wrapper\<close>

lemma Some_opt_neq_None [simp]: "Some_opt v \<noteq> None_opt" "None_opt \<noteq> Some_opt v"
  by (simp_all add: Some_opt_def None_opt_def)

lemma IsPresent_simps [simp]:
  "IsPresent (Some_opt v)" "\<not> IsPresent None_opt" "val (Some_opt v) = v"
  by (simp_all add: Some_opt_def None_opt_def IsPresent_def)

lemma IsAbsent_FromPair: "IsAbsent (FromPair v ok) = IsPresent (FromPair v ok)"
  by (simp add: FromPair_def IsAbsent_def IsPresent_def None_opt_def Some_opt_def)

lemma IsAbsent_old_eq: "IsAbsent_old o' = (\<not> IsPresent_old o')"
  by (simp add: IsAbsent_old_def IsPresent_old_def)

section \<open>Routing\<close>

lemma shardIndex_le: "shardIndex m key \<le> unat (shardMask m)"
  unfolding shardIndex_def by (simp add: word_and_le1 word_le_nat_alt [symmetric])

lemma shardIndex_less: "inRange m \<Longrightarrow> shardIndex m key < length (shards m)"
  using shardIndex_le [of m key] by (simp add: inRange_def)

lemma getShard_inRange: "inRange m \<Longrightarrow> getShard m key = Inr (shardIndex m key)"
  using shardIndex_le [of m key]
  by (simp add: getShard_def inRange_def shardIndex_def Let_def)

lemma inRange_setItems [simp]: "inRange (setItems m i items) = inRange m"
  by (simp add: inRange_def setItems_def)

lemma shardIndex_setItems [simp]: "shardIndex (setItems m i items) key = shardIndex m key"
  by (simp add: shardIndex_def setItems_def)

lemma shards_setItems:
  "i < length (shards m) \<Longrightarrow>
   shards (setItems m i items) ! j = (if j = i then items else shards m ! j)"
  by (simp add: setItems_def)

lemma setItems_same: "i < length (shards m) \<Longrightarrow> setItems m i (shards m ! i) = m"
  by (simp add: setItems_def)

lemma Get_inRange:
  "inRange m \<Longrightarrow>
   Get m key = Inr (case items_of m key of None \<Rightarrow> None_opt | Some v \<Rightarrow> Some_opt v)"
  by (simp add: Get_def getShard_inRange lookup2_def FromPair_def items_of_def
      split: option.splits)

lemma items_of_setItems:
  "inRange m \<Longrightarrow>
   items_of (setItems m (shardIndex m key) ((shards m ! shardIndex m key)(key := x))) key'
     = (if key' = key then x else items_of m key')"
  using shardIndex_le [of m key]
  by (auto simp: items_of_def shards_setItems inRange_def)

lemma Get_setItems:
  assumes "inRange m"
  shows "Get (setItems m (shardIndex m k) ((shards m ! shardIndex m k)(k := x))) k'
           = (if k' = k then Inr (case x of None \<Rightarrow> None_opt | Some v \<Rightarrow> Some_opt v)
              else Get m k')"
proof -
  let ?m' = "setItems m (shardIndex m k) ((shards m ! shardIndex m k)(k := x))"
  have "inRange ?m'" using assms by simp
  then have "Get ?m' k' =
      Inr (case items_of ?m' k' of None \<Rightarrow> None_opt | Some v \<Rightarrow> Some_opt v)"
    by (rule Get_inRange)
  then show ?thesis using assms by (simp add: items_of_setItems Get_inRange)
qed

section \<open>The single-key operations\<close>

text \<open>
  C1. On a map in range, \<^verbatim>\<open>GetOrSet(k, v)\<close> never panics. When \<^verbatim>\<open>Get(k)\<close> finds a value,
  it returns that value with \<^verbatim>\<open>existed = true\<close> and the map is the same map afterwards.
  Otherwise it returns \<open>v\<close> with \<^verbatim>\<open>existed = false\<close>, and afterwards \<^verbatim>\<open>Get(k)\<close> finds \<open>v\<close>
  while every other key reads as before.
\<close>

theorem GetOrSet_spec:
  assumes "inRange m"
  shows "case Get m k of
           Inl e \<Rightarrow> False
         | Inr opt \<Rightarrow>
             if IsPresent opt then GetOrSet m k v = Inr ((val opt, True), m)
             else (\<exists>m'. GetOrSet m k v = Inr ((v, False), m') \<and> inRange m' \<and>
                    (\<forall>k'. Get m' k' = (if k' = k then Inr (Some_opt v) else Get m k')))"
proof (cases "items_of m k")
  case None
  then have "GetOrSet m k v =
      Inr ((v, False), setItems m (shardIndex m k) ((shards m ! shardIndex m k)(k \<mapsto> v)))"
    using assms by (simp add: GetOrSet_def getShard_inRange lookup2_def items_of_def)
  moreover have "Get m k = Inr None_opt"
    using None assms by (simp add: Get_inRange)
  ultimately show ?thesis using assms by (simp add: Get_setItems)
next
  case (Some w)
  then show ?thesis using assms
    by (simp add: Get_inRange GetOrSet_def getShard_inRange lookup2_def items_of_def)
qed

theorem GetOrSet_spec_witness:
  "inRange demo \<and> GetOrSet demo 1 10 = Inr ((10, False), demo1) \<and>
   inRange demo1 \<and> GetOrSet demo1 1 7 = Inr ((10, True), demo1)"
  using GetOrSet_spec [of demo 1 10] GetOrSet_spec [of demo1 1 7]
  by (simp add: inRange_def demo_def demo1_def demoHash_def GetOrSet_def getShard_def
      lookup2_def setItems_def)

text \<open>
  C10. \<^verbatim>\<open>IsAbsent\<close> compares the state with \<^verbatim>\<open>stateAbsent\<close> by \<^verbatim>\<open>!=\<close>: on the option that
  \<^verbatim>\<open>Get\<close> returns for a key the map does not hold, \<^verbatim>\<open>IsPresent\<close> and \<^verbatim>\<open>IsAbsent\<close> are both
  false, and on the option it returns for a key the map holds, both are true.
\<close>

theorem IsAbsent_of_Get_eval:
  "(case Get demo 1 of Inl e \<Rightarrow> False
    | Inr opt \<Rightarrow> IsPresent opt = False \<and> IsAbsent opt = False) \<and>
   (case Get demo1 1 of Inl e \<Rightarrow> False
    | Inr opt \<Rightarrow> IsPresent opt = True \<and> IsAbsent opt = True)"
  by (simp add: Get_def getShard_def demo_def demo1_def demoHash_def lookup2_def
      FromPair_def IsAbsent_def None_opt_def Some_opt_def IsPresent_def)

text \<open>
  C8. On a map in range, \<^verbatim>\<open>Remove(k)\<close> never panics and returns an \<^verbatim>\<open>Option\<close>. When
  \<^verbatim>\<open>Get(k)\<close> finds a value, \<^verbatim>\<open>Remove(k)\<close> returns that value as a present option, and
  afterwards \<^verbatim>\<open>Get(k)\<close> is the absent option while every other key reads as before. When
  \<^verbatim>\<open>Get(k)\<close> finds nothing, \<^verbatim>\<open>Remove(k)\<close> returns the absent option and the map is the same
  map afterwards.
\<close>

theorem Remove_spec:
  assumes "inRange m"
  shows "case Get m k of
           Inl e \<Rightarrow> False
         | Inr opt \<Rightarrow>
             if IsPresent opt
             then (\<exists>m'. Remove m k = Inr (Some_opt (val opt), m') \<and> inRange m' \<and>
                    (\<forall>k'. Get m' k' = (if k' = k then Inr None_opt else Get m k')))
             else Remove m k = Inr (None_opt, m)"
proof (cases "items_of m k")
  case None
  then show ?thesis using assms
    by (simp add: Get_inRange Remove_def getShard_inRange lookup2_def items_of_def
        FromPair_def)
next
  case (Some w)
  then have "Remove m k =
      Inr (Some_opt w, setItems m (shardIndex m k) ((shards m ! shardIndex m k)(k := None)))"
    using assms
    by (simp add: Remove_def getShard_inRange lookup2_def items_of_def FromPair_def)
  moreover have "Get m k = Inr (Some_opt w)"
    using Some assms by (simp add: Get_inRange)
  ultimately show ?thesis using assms by (simp add: Get_setItems)
qed

theorem Remove_spec_witness:
  "inRange demo1 \<and> Remove demo1 1 = Inr (Some_opt 10, demo) \<and>
   inRange demo \<and> Remove demo 1 = Inr (None_opt, demo)"
  using Remove_spec [of demo1 1] Remove_spec [of demo 1]
  by (simp add: inRange_def demo_def demo1_def demoHash_def Remove_def getShard_def
      lookup2_def setItems_def FromPair_def)

text \<open>
  C7, as the code has it. \<^verbatim>\<open>Delete(k)\<close> has no result value. On a map in range it never
  panics; afterwards \<^verbatim>\<open>Get(k)\<close> is the absent option and every other key reads as before,
  and when the map did not hold \<open>k\<close> it is the same map afterwards.
\<close>

theorem Delete_spec:
  assumes "inRange m"
  shows "\<exists>m'. Delete m k = Inr ((), m') \<and> inRange m' \<and>
           (\<forall>k'. Get m' k' = (if k' = k then Inr None_opt else Get m k')) \<and>
           (if Has m k = Inr True then True else m' = m)"
proof -
  let ?i = "shardIndex m k"
  let ?m' = "setItems m ?i ((shards m ! ?i)(k := None))"
  have d: "Delete m k = Inr ((), ?m')"
    using assms by (simp add: Delete_def getShard_inRange)
  have g: "\<forall>k'. Get ?m' k' = (if k' = k then Inr None_opt else Get m k')"
    using assms by (simp add: Get_setItems)
  have "?m' = m" if "Has m k \<noteq> Inr True"
  proof -
    from that assms have "items_of m k = None"
      by (simp add: Has_def Get_inRange split: option.splits)
    then have "(shards m ! ?i)(k := None) = shards m ! ?i"
      by (simp add: items_of_def fun_upd_idem)
    moreover have "?i < length (shards m)"
      using assms by (rule shardIndex_less)
    ultimately show ?thesis by (simp add: setItems_same)
  qed
  with d g assms show ?thesis by simp
qed

theorem Delete_spec_witness:
  "inRange demo1 \<and> Delete demo1 1 = Inr ((), demo) \<and>
   inRange demo \<and> Delete demo 1 = Inr ((), demo)"
  using Delete_spec [of demo1 1] Delete_spec [of demo 1]
  by (simp add: inRange_def demo_def demo1_def demoHash_def Delete_def getShard_def
      setItems_def)

text \<open>
  C7, as the claim has it, fails: the map \<open>demo1\<close> holds the key 1 and the map \<open>demo\<close>
  does not, and \<^verbatim>\<open>Delete\<close> hands back the same (empty) result on both, so its result does
  not report whether a removal occurred.
\<close>

theorem Delete_result_counterexample:
  "Has demo1 1 = Inr True \<and> Has demo 1 = Inr False \<and>
   map_sum id fst (Delete demo1 1) = map_sum id fst (Delete demo 1)"
  by (simp add: Has_def Get_def Delete_def getShard_def demo_def demo1_def demoHash_def
      lookup2_def FromPair_def)

section \<open>Construction\<close>

lemma bit63_sint: "bit (x :: 64 word) 63 \<longleftrightarrow> sint x < 0"
  using bit_last_iff [of x] by simp

lemma sint_pos_pred: 
  assumes "0 < sint (n :: 64 word)" 
  shows "\<not> bit (n - 1) 63"
proof -
  have "sint n < 2 ^ 63" using sint_lt [of n] by simp
  then have "signed_take_bit 63 (sint n - 1) = sint n - 1"
    using assms by (intro signed_take_bit_int_eq_self) auto
  then have "sint (n - 1) = sint n - 1"
    by (simp add: sint_word_ariths)
  then show ?thesis using assms by (simp add: bit63_sint)
qed

lemma nextPowerOf2_nonzero: "nextPowerOf2 n \<noteq> 0"
proof (cases "sint n \<le> 0")
  case True
  then show ?thesis by (simp add: nextPowerOf2_def)
next
  case False
  then have p: "\<not> bit (n - 1) 63" by (simp add: sint_pos_pred)
  define y where "y = nextPowerOf2 n - 1"
  have "bit y 63 = bit (n - 1) 63"
    using False by (simp add: y_def nextPowerOf2_def Let_def bit_or_iff bit_signed_drop_bit_iff)
  then have "y \<noteq> - 1" using p by auto
  then show ?thesis by (auto simp: y_def)
qed

lemma unat_mask_pred: "c \<noteq> 0 \<Longrightarrow> unat (ucast ((c :: 64 word) - 1) :: 32 word) < unat c"
proof -
  assume c: "c \<noteq> 0"
  have "unat (ucast (c - 1) :: 32 word) \<le> unat (c - 1)"
    by (simp add: unsigned_ucast_eq take_bit_eq_mod)
  also have "\<dots> < unat c" using c by (rule measure_unat)
  finally show ?thesis .
qed

lemma keepsShards_WithHash: "keepsShards (WithHash f)"
  by (simp add: keepsShards_def WithHash_def)

lemma keepsShards_WithSeed: "keepsShards (WithSeed s)"
  by (simp add: keepsShards_def WithSeed_def)

lemma foldl_keepsShards:
  "list_all keepsShards opts \<Longrightarrow>
   shards (foldl (\<lambda>m opt. opt m) m opts) = shards m \<and>
   shardMask (foldl (\<lambda>m opt. opt m) m opts) = shardMask m"
  by (induction opts arbitrary: m) (simp_all add: keepsShards_def)

lemma WithShards_shape:
  assumes "WithShards n opts derived fresh = Inr m" and "list_all keepsShards opts"
  shows "shards m = replicate (unat (nextPowerOf2 (if sint n \<le> 0 then SHARD_COUNT else n))) Map.empty
       \<and> shardMask m = ucast (nextPowerOf2 (if sint n \<le> 0 then SHARD_COUNT else n) - 1)"
  using assms foldl_keepsShards [OF assms(2)]
  by (auto simp: WithShards_def Let_def split: if_splits)

section \<open>Routing is fixed for the lifetime of a map\<close>

lemma setItems_fields [simp]:
  "seed (setItems m i x) = seed m" "hashFunc (setItems m i x) = hashFunc m"
  "shardMask (setItems m i x) = shardMask m" "length (shards (setItems m i x)) = length (shards m)"
  by (simp_all add: setItems_def)

lemma Clear_fields [simp]:
  "seed (Clear m) = seed m" "hashFunc (Clear m) = hashFunc m"
  "shardMask (Clear m) = shardMask m" "length (shards (Clear m)) = length (shards m)"
  by (simp_all add: Clear_def)

lemma sameRouting_refl [simp]: "sameRouting m m"
  by (simp add: sameRouting_def)

lemma sameRouting_setItems [simp]: "sameRouting m (setItems m i x)"
  by (simp add: sameRouting_def)

lemma sameRouting_Clear [simp]: "sameRouting m (Clear m)"
  by (simp add: sameRouting_def)






section \<open>A fresh map\<close>

lemma WithShards_placed:
  assumes "WithShards n opts derived fresh = Inr m" and "list_all keepsShards opts"
  shows "placed m \<and> keysOf m = {}"
proof -
  define c where "c = nextPowerOf2 (if sint n \<le> 0 then SHARD_COUNT else n)"
  have sh: "shards m = replicate (unat c) Map.empty" and mk: "shardMask m = ucast (c - 1)"
    using WithShards_shape [OF assms] by (simp_all add: c_def)
  have "c \<noteq> 0" by (simp add: c_def nextPowerOf2_nonzero)
  then have r: "inRange m"
    by (simp add: inRange_def sh mk unat_mask_pred)
  have e: "shards m ! i = Map.empty" if "i < length (shards m)" for i
    using that by (simp add: sh)
  have "placed m"
    unfolding placed_def using r e by simp
  moreover have "items_of m k = None" for k
    using e [OF shardIndex_less [OF r, of k]] by (simp add: items_of_def)
  then have "keysOf m = {}" by (simp add: keysOf_def)
  ultimately show ?thesis by simp
qed

lemma replicate_two: "replicate 2 x = [x, x]"
  by (simp add: numeral_2_eq_2)

lemma demo_built: "WithShards 2 [WithSeed 0] demoHash 5 = Inr demo"
  by (simp add: WithShards_def nextPowerOf2_def demo_def WithSeed_def replicate_two)

text \<open>
  C3. The examples of the claim hold: a hint of 5 gives 8 shards, a hint of 32 gives 32,
  and a hint of 0 or below gives the default 32.
\<close>

lemma WithShards_hint_examples:
  "map_sum id (\<lambda>m. (length (shards m), shardMask m))
     (WithShards 5 [] demoHash 0 :: error + (nat, nat, nat) ConcurrentMap) = Inr (8, 7)"
  "map_sum id (\<lambda>m. (length (shards m), shardMask m))
     (WithShards 32 [] demoHash 0 :: error + (nat, nat, nat) ConcurrentMap) = Inr (32, 31)"
  "map_sum id (\<lambda>m. (length (shards m), shardMask m))
     (WithShards 0 [] demoHash 0 :: error + (nat, nat, nat) ConcurrentMap) = Inr (32, 31)"
  "map_sum id (\<lambda>m. (length (shards m), shardMask m))
     (WithShards (- 3) [] demoHash 0 :: error + (nat, nat, nat) ConcurrentMap) = Inr (32, 31)"
  by (simp_all add: WithShards_def nextPowerOf2_def SHARD_COUNT_def)

text \<open>
  C3. The general statement fails on the code: \<^verbatim>\<open>nextPowerOf2\<close> smears the leading bit
  over 32 positions only, and \<^verbatim>\<open>int\<close> has 64. For the hint \<open>2\<^sup>3\<^sup>2 + 1\<close> the map gets
  \<open>2\<^sup>3\<^sup>3 - 1\<close> shards, which is odd and so no power of two, and the mask
  \<^verbatim>\<open>0xFFFFFFFE\<close>.
\<close>

theorem WithShards_hint_above_2_32_eval:
  "nextPowerOf2 4294967297 = 8589934591 \<and>
   map_sum id (\<lambda>m. (length (shards m), shardMask m))
     (WithShards 4294967297 [] demoHash 0 :: error + (nat, nat, nat) ConcurrentMap)
     = Inr (8589934591, 0xFFFFFFFE) \<and>
   odd (8589934591 :: nat)"
  by (simp add: WithShards_def nextPowerOf2_def)

section \<open>The claim on routing\<close>



section \<open>The record-layout hasher\<close>

lemma flatten_total:
  "Kind t = KStruct \<Longrightarrow> \<exists>descs. flattenStruct t b = Inr descs"
  "\<exists>descs. flattenLoop fs b = Inr descs"
proof (induction t b and fs b rule: flattenStruct_flattenLoop.induct)
  case (1 k fs baseOffset)
  then show ?case by simp
next
  case (2 baseOffset)
  then show ?case by simp
next
  case (3 name off t rest baseOffset)
  from 3 obtain r where r: "flattenLoop rest baseOffset = Inr r" by blast
  show ?case
  proof (cases "name \<noteq> ''_'' \<and> Kind t \<notin> set hashedKinds \<and> Kind t = KStruct")
    case True
    with 3 obtain sub where "flattenStruct t (baseOffset + off) = Inr sub" by blast
    with True r show ?thesis by simp
  next
    case False
    with r show ?thesis by auto
  qed
qed


lemma hashLoop_foldl:
  "hashLoop mh sd m p descs h =
     foldl mixStep h (map (\<lambda>f. fieldHash mh sd m (p + offset f) (kind f)) descs)"
  by (induction descs arbitrary: h) (simp_all add: mixStep_def Let_def)



lemma CreateStructHasher_total:
  assumes "Kind t = KStruct"
  shows "\<exists>descs. flattenStruct t 0 = Inr descs \<and>
           CreateStructHasher mh t =
             Inr (\<lambda>sd key. Inr (foldl mixStep 0 (fieldDigests mh sd key descs)))"
proof -
  from flatten_total(1) [OF assms, of 0] obtain descs
    where f: "flattenStruct t 0 = Inr descs" by blast
  then show ?thesis
    by (simp add: CreateStructHasher_def hashLoop_foldl fieldDigests_def)
qed

text \<open>
  C6. For every struct type, \<^verbatim>\<open>CreateStructHasher\<close> returns a hasher, and the digest it
  gives a key is the left fold, from 0 and over the digests of the fields in descriptor
  order, of the step \<open>h XOR (fieldDigest + 0x9e3779b9 + (h << 6) + (h >> 2))\<close> on 32-bit
  words.
\<close>

theorem CreateStructHasher_fold:
  assumes "Kind t = KStruct"
  shows "\<exists>descs h. flattenStruct t 0 = Inr descs \<and> CreateStructHasher mh t = Inr h \<and>
           (\<forall>sd key. h sd key = Inr (foldl mixStep 0 (fieldDigests mh sd key descs)))"
proof -
  from CreateStructHasher_total [OF assms, of mh] obtain descs
    where "flattenStruct t 0 = Inr descs"
      and "CreateStructHasher mh t =
             Inr (\<lambda>sd key. Inr (foldl mixStep 0 (fieldDigests mh sd key descs)))"
    by blast
  then show ?thesis by (intro exI conjI) (assumption, assumption, simp)
qed

theorem CreateStructHasher_fold_witness:
  "Kind recStruct = KStruct \<and>
   (\<exists>descs h. flattenStruct recStruct 0 = Inr descs \<and>
      CreateStructHasher toyHash recStruct = Inr h \<and>
      (\<forall>sd key. h sd key = Inr (foldl mixStep 0 (fieldDigests toyHash sd key descs))))"
  using CreateStructHasher_fold [of recStruct toyHash] by (simp add: recStruct_def)






section \<open>The registry\<close>

text \<open>
  C5, as the code has it. Let the key type be a defined type (only such a type can have
  a method \<^verbatim>\<open>Hash\<close>) that is not an interface. When it is not a struct either, the derived
  hasher returns what the key's \<^verbatim>\<open>Hash\<close> method returns for the seed. When it is a struct,
  the derived hasher is the record-layout hasher, which reads the key's memory only,
  whether or not the type has a \<^verbatim>\<open>Hash\<close> method.
\<close>

theorem GetHashFunc_Hashable:
  assumes "\<not> isPredeclared K" and "Kind (reflectType K) \<noteq> KInterface"
  shows "if Kind (reflectType K) = KStruct
         then (\<exists>descs h. flattenStruct (reflectType K) 0 = Inr descs \<and>
                 GetHashFunc mh K = Inr h \<and>
                 (\<forall>sd key. h sd key = Inr (hashLoop mh sd (keyMem key) (keyAddr key) descs 0)))
         else (\<exists>h. GetHashFunc mh K = Inr h \<and>
                 (\<forall>sd key hashMethod.
                    HashM key = Some hashMethod \<longrightarrow> h sd key = Inr (hashMethod sd)))"
proof (cases "Kind (reflectType K) = KStruct")
  case True
  from flatten_total(1) [OF True, of 0] obtain descs
    where f: "flattenStruct (reflectType K) 0 = Inr descs" by blast
  have "GetHashFunc mh K = CreateStructHasher mh (reflectType K)"
    using assms True by (simp add: GetHashFunc_def)
  with f True show ?thesis by (simp add: CreateStructHasher_def)
next
  case False
  have "GetHashFunc mh K = Inr (fallbackHasher mh)"
    using assms False by (simp add: GetHashFunc_def)
  with False show ?thesis by (simp add: fallbackHasher_def)
qed

theorem GetHashFunc_Hashable_witness:
  "\<not> isPredeclared userIDType \<and> Kind (reflectType userIDType) \<noteq> KInterface \<and>
   Kind (reflectType userIDType) \<noteq> KStruct \<and> HashM keyU = Some answer42 \<and>
   (\<exists>h. GetHashFunc toyHash userIDType = Inr h \<and> h 0 keyU = Inr (answer42 0)) \<and>
   \<not> isPredeclared recType \<and> Kind (reflectType recType) = KStruct \<and>
   (\<exists>descs h. flattenStruct (reflectType recType) 0 = Inr descs \<and>
      GetHashFunc toyHash recType = Inr h \<and>
      h 0 keyA = Inr (hashLoop toyHash 0 (keyMem keyA) (keyAddr keyA) descs 0))"
proof -
  have u: "\<not> isPredeclared userIDType" "Kind (reflectType userIDType) \<noteq> KInterface"
    "Kind (reflectType userIDType) \<noteq> KStruct" "HashM keyU = Some answer42"
    by (simp_all add: userIDType_def keyU_def)
  have r: "\<not> isPredeclared recType" "Kind (reflectType recType) \<noteq> KInterface"
    "Kind (reflectType recType) = KStruct"
    by (simp_all add: recType_def recStruct_def)
  from GetHashFunc_Hashable [OF u(1,2), of toyHash] u(3,4)
  have "\<exists>h. GetHashFunc toyHash userIDType = Inr h \<and> h 0 keyU = Inr (answer42 0)"
    by auto
  moreover from GetHashFunc_Hashable [OF r(1,2), of toyHash] r(3)
  have "\<exists>descs h. flattenStruct (reflectType recType) 0 = Inr descs \<and>
      GetHashFunc toyHash recType = Inr h \<and>
      h 0 keyA = Inr (hashLoop toyHash 0 (keyMem keyA) (keyAddr keyA) descs 0)"
    by auto
  ultimately show ?thesis using u r by blast
qed

text \<open>
  C5, as the claim has it, fails: \<^verbatim>\<open>Rec\<close> is a struct type with a method \<^verbatim>\<open>Hash\<close> that
  returns 42, and the hasher derived for it gives \<open>keyA\<close> the record-layout digest, not 42.
\<close>

theorem struct_Hash_counterexample:
  "Kind (reflectType recType) = KStruct \<and> HashM keyA = Some answer42 \<and>
   answer42 0 = 42 \<and>
   (case GetHashFunc toyHash recType of
      Inl e \<Rightarrow> False
    | Inr h \<Rightarrow> h 0 keyA = Inr 4216856302)"
proof -
  have "Kind (reflectType recType) = KStruct"
    by (simp add: recType_def recStruct_def)
  moreover have "HashM keyA = Some answer42"
    by (simp add: keyA_def)
  moreover have "answer42 0 = 42"
    by (simp add: answer42_def)
  moreover have "case GetHashFunc toyHash recType of
      Inl e \<Rightarrow> False
    | Inr h \<Rightarrow> h 0 keyA = Inr 4216856302"
    by code_simp
  ultimately show ?thesis by blast
qed

section \<open>Counting the entries under Go's key equality\<close>

lemma Len_loop_sum: "Len_loop xs c = c + sum_list (map length xs)"
  by (induction xs arbitrary: c) simp_all

lemma Len_allKeys: "Len m = length (allKeys m)"
  by (simp add: Len_def Len_loop_sum allKeys_def length_concat comp_def)

lemma shardIndex_eq_less: "inRange_eq m \<Longrightarrow> shardIndex_eq m key < length (shards_eq m)"
proof -
  assume r: "inRange_eq m"
  have "shardIndex_eq m key \<le> unat (shardMask_eq m)"
    unfolding shardIndex_eq_def by (simp add: word_and_le1 word_le_nat_alt [symmetric])
  with r show ?thesis by (simp add: inRange_eq_def)
qed

lemma getShard_eq_inRange:
  "inRange_eq m \<Longrightarrow> getShard_eq m key = Inr (shardIndex_eq m key)"
  using shardIndex_eq_less [of m key]
  by (simp add: getShard_eq_def shardIndex_eq_def Let_def)

lemma keys_mapassign:
  "map fst (mapassign eq items k v) =
     (if list_ex (\<lambda>k'. eq k' k) (map fst items) then map fst items else map fst items @ [k])"
  by (simp add: mapassign_def list_ex_iff comp_def cong: map_cong)

lemma keys_mapdelete:
  "map fst (mapdelete eq items k) = filter (\<lambda>k'. \<not> eq k' k) (map fst items)"
  by (simp add: mapdelete_def filter_map comp_def)

lemma mset_concat_update_snoc:
  assumes "i < length xs"
  shows "mset (concat (xs[i := xs ! i @ [k]])) = mset (concat xs) + {#k#}"
proof -
  have e1: "concat (xs[i := xs ! i @ [k]])
              = concat (take i xs) @ xs ! i @ [k] @ concat (drop (Suc i) xs)"
    using assms by (simp add: upd_conv_take_nth_drop)
  have "concat xs = concat (take i xs @ xs ! i # drop (Suc i) xs)"
    using id_take_nth_drop [OF assms] by simp
  then have e2: "concat xs = concat (take i xs) @ xs ! i @ concat (drop (Suc i) xs)"
    by simp
  have "mset (concat (xs[i := xs ! i @ [k]]))
          = mset (concat (take i xs) @ xs ! i @ concat (drop (Suc i) xs)) + {#k#}"
    by (simp add: e1)
  then show ?thesis by (simp only: e2 [symmetric])
qed

lemma update_filter_map:
  assumes "i < length xs" and "\<forall>j<length xs. j \<noteq> i \<longrightarrow> filter P (xs ! j) = xs ! j"
  shows "xs[i := filter P (xs ! i)] = map (filter P) xs"
  using assms by (intro nth_equalityI) (auto simp: nth_list_update)

lemma in_allKeys_iff:
  "k \<in> set (allKeys m) \<longleftrightarrow> (\<exists>j<length (shards_eq m). k \<in> fst ` set (shards_eq m ! j))"
proof -
  have "set (allKeys m) = (\<Union>xs\<in>set (shards_eq m). fst ` set xs)"
    by (simp add: allKeys_def)
  also have "\<dots> = (\<Union>j\<in>{..<length (shards_eq m)}. fst ` set (shards_eq m ! j))"
    by (simp add: set_conv_nth [of "shards_eq m"]) blast
  finally show ?thesis by auto
qed

lemma respectsEq_index:
  "respectsEq eq m \<Longrightarrow> eq a b \<Longrightarrow> shardIndex_eq m a = shardIndex_eq m b"
  by (simp add: respectsEq_def shardIndex_eq_def)

lemma match_in_own_shard:
  assumes r: "inRange_eq m" and p: "placed_eq m" and ms: "mset (allKeys m) = mset S"
    and refl: "\<forall>a. eq a a" and resp: "respectsEq eq m"
  shows "list_ex (\<lambda>k'. sameKey eq k' k) S
           \<longleftrightarrow> list_ex (\<lambda>k'. eq k' k) (map fst (shards_eq m ! shardIndex_eq m k))"
proof
  let ?i = "shardIndex_eq m k"
  have il: "?i < length (shards_eq m)" using r by (rule shardIndex_eq_less)
  have sets: "set (allKeys m) = set S" using ms by (rule mset_eq_setD)
  {
    assume "list_ex (\<lambda>k'. sameKey eq k' k) S"
    then obtain k' where k': "k' \<in> set S" "sameKey eq k' k" by (auto simp: list_ex_iff)
    then have e: "eq k' k" using refl by (auto simp: sameKey_def)
    from k'(1) sets have "k' \<in> set (allKeys m)" by simp
    then obtain j where j: "j < length (shards_eq m)" "k' \<in> fst ` set (shards_eq m ! j)"
      using in_allKeys_iff [of k' m] by blast
    then have "shardIndex_eq m k' = j" using p by (auto simp: placed_eq_def)
    moreover have "shardIndex_eq m k' = ?i" using resp e by (rule respectsEq_index)
    ultimately have "k' \<in> fst ` set (shards_eq m ! ?i)" using j(2) by simp
    with e show "list_ex (\<lambda>k'. eq k' k) (map fst (shards_eq m ! ?i))"
      by (auto simp: list_ex_iff)
  }
  {
    assume "list_ex (\<lambda>k'. eq k' k) (map fst (shards_eq m ! ?i))"
    then obtain k' where k': "k' \<in> fst ` set (shards_eq m ! ?i)" "eq k' k"
      by (auto simp: list_ex_iff)
    with il have "k' \<in> set (allKeys m)" using in_allKeys_iff [of k' m] by blast
    with sets k'(2) show "list_ex (\<lambda>k'. sameKey eq k' k) S"
      by (auto simp: list_ex_iff sameKey_def)
  }
qed

lemma allKeys_update:
  "allKeys (m\<lparr>shards_eq := (shards_eq m)[i := y]\<rparr>)
     = concat ((map (map fst) (shards_eq m))[i := map fst y])"
  by (simp add: allKeys_def map_update)

lemma placed_eq_update:
  assumes p: "placed_eq m" and il: "i < length (shards_eq m)"
    and y: "\<forall>k'\<in>set (map fst y). shardIndex_eq m k' = i"
  shows "placed_eq (m\<lparr>shards_eq := (shards_eq m)[i := y]\<rparr>)"
  unfolding placed_eq_def
proof (intro allI impI ballI)
  fix j e
  let ?m' = "m\<lparr>shards_eq := (shards_eq m)[i := y]\<rparr>"
  assume j: "j < length (shards_eq ?m')" and e: "e \<in> set (shards_eq ?m' ! j)"
  have idx: "shardIndex_eq ?m' (fst e) = shardIndex_eq m (fst e)"
    by (simp add: shardIndex_eq_def)
  show "shardIndex_eq ?m' (fst e) = j"
  proof (cases "j = i")
    case True
    with e il have "fst e \<in> set (map fst y)" by simp
    with y have "shardIndex_eq m (fst e) = i" by blast
    with True idx show ?thesis by simp
  next
    case False
    with e j have "e \<in> set (shards_eq m ! j)" "j < length (shards_eq m)" by simp_all
    with p idx show ?thesis by (simp add: placed_eq_def)
  qed
qed

lemma Set_eq_step:
  assumes r: "inRange_eq m" and p: "placed_eq m" and ms: "mset (allKeys m) = mset S"
    and refl: "\<forall>a. eq a a" and resp: "respectsEq eq m"
  shows "\<exists>m'. Set_eq eq m k v = Inr m' \<and> inRange_eq m' \<and> placed_eq m' \<and>
           respectsEq eq m' \<and>
           mset (allKeys m') = mset (if list_ex (\<lambda>k'. sameKey eq k' k) S then S else S @ [k])"
proof -
  let ?i = "shardIndex_eq m k"
  let ?ks = "map fst (shards_eq m ! ?i)"
  let ?y = "mapassign eq (shards_eq m ! ?i) k v"
  let ?m' = "m\<lparr>shards_eq := (shards_eq m)[?i := ?y]\<rparr>"
  have il: "?i < length (shards_eq m)" using r by (rule shardIndex_eq_less)
  have s: "Set_eq eq m k v = Inr ?m'"
    using r by (simp add: Set_eq_def getShard_eq_inRange)
  have r': "inRange_eq ?m'" using r by (simp add: inRange_eq_def)
  have resp': "respectsEq eq ?m'" using resp by (simp add: respectsEq_def)
  have old: "\<forall>k'\<in>set ?ks. shardIndex_eq m k' = ?i"
    using p il by (auto simp: placed_eq_def)
  have ky: "map fst ?y = (if list_ex (\<lambda>k'. eq k' k) ?ks then ?ks else ?ks @ [k])"
    by (rule keys_mapassign)
  have "\<forall>k'\<in>set (map fst ?y). shardIndex_eq m k' = ?i"
    using old by (simp add: ky)
  with p il have p': "placed_eq ?m'" by (rule placed_eq_update)
  have mt: "list_ex (\<lambda>k'. sameKey eq k' k) S \<longleftrightarrow> list_ex (\<lambda>k'. eq k' k) ?ks"
    using r p ms refl resp by (rule match_in_own_shard)
  have nth: "map (map fst) (shards_eq m) ! ?i = ?ks" using il by simp
  have "mset (allKeys ?m') = mset (if list_ex (\<lambda>k'. sameKey eq k' k) S then S else S @ [k])"
  proof (cases "list_ex (\<lambda>k'. eq k' k) ?ks")
    case True
    then have "map fst ?y = map (map fst) (shards_eq m) ! ?i" using ky nth by simp
    then have "allKeys ?m' = allKeys m"
      by (simp add: allKeys_update) (simp add: allKeys_def)
    with True mt ms show ?thesis by simp
  next
    case False
    then have "map fst ?y = map (map fst) (shards_eq m) ! ?i @ [k]" using ky nth by simp
    then have "mset (allKeys ?m') = mset (allKeys m) + {#k#}"
      using il mset_concat_update_snoc [of ?i "map (map fst) (shards_eq m)" k]
      by (simp add: allKeys_update) (simp add: allKeys_def)
    with False mt ms show ?thesis by simp
  qed
  with s r' p' resp' show ?thesis by blast
qed

lemma Delete_eq_step:
  assumes r: "inRange_eq m" and p: "placed_eq m" and ms: "mset (allKeys m) = mset S"
    and refl: "\<forall>a. eq a a" and resp: "respectsEq eq m"
  shows "\<exists>m'. map_sum id snd (Delete_eq eq m k) = Inr m' \<and> inRange_eq m' \<and> placed_eq m' \<and>
           respectsEq eq m' \<and>
           mset (allKeys m') = mset (filter (\<lambda>k'. \<not> sameKey eq k' k) S)"
proof -
  let ?i = "shardIndex_eq m k"
  let ?P = "\<lambda>k'. \<not> eq k' k"
  let ?kss = "map (map fst) (shards_eq m)"
  let ?y = "mapdelete eq (shards_eq m ! ?i) k"
  let ?m' = "m\<lparr>shards_eq := (shards_eq m)[?i := ?y]\<rparr>"
  have il: "?i < length (shards_eq m)" using r by (rule shardIndex_eq_less)
  have s: "map_sum id snd (Delete_eq eq m k) = Inr ?m'"
    using r by (simp add: Delete_eq_def getShard_eq_inRange)
  have r': "inRange_eq ?m'" using r by (simp add: inRange_eq_def)
  have resp': "respectsEq eq ?m'" using resp by (simp add: respectsEq_def)
  have ky: "map fst ?y = filter ?P (?kss ! ?i)"
    using il by (simp add: keys_mapdelete)
  have "\<forall>k'\<in>set (map fst ?y). shardIndex_eq m k' = ?i"
    using p il by (auto simp: ky placed_eq_def)
  with p il have p': "placed_eq ?m'" by (rule placed_eq_update)
  have other: "\<forall>j<length ?kss. j \<noteq> ?i \<longrightarrow> filter ?P (?kss ! j) = ?kss ! j"
  proof (intro allI impI)
    fix j
    assume j: "j < length ?kss" "j \<noteq> ?i"
    have "\<not> eq k' k" if "k' \<in> set (?kss ! j)" for k'
    proof
      assume "eq k' k"
      with resp have "shardIndex_eq m k' = ?i" by (rule respectsEq_index)
      moreover from that j(1) p have "shardIndex_eq m k' = j"
        by (auto simp: placed_eq_def)
      ultimately show False using j(2) by simp
    qed
    then show "filter ?P (?kss ! j) = ?kss ! j" by (simp add: filter_id_conv)
  qed
  have "?kss[?i := filter ?P (?kss ! ?i)] = map (filter ?P) ?kss"
    using il other by (intro update_filter_map) simp_all
  then have "allKeys ?m' = filter ?P (allKeys m)"
    by (simp add: allKeys_update ky) (simp add: allKeys_def filter_concat)
  moreover have "sameKey eq k' k \<longleftrightarrow> eq k' k" for k'
    using refl by (auto simp: sameKey_def)
  ultimately have "mset (allKeys ?m') = mset (filter (\<lambda>k'. \<not> sameKey eq k' k) S)"
    using ms by simp
  with s r' p' resp' show ?thesis by blast
qed

lemma run_calls_counts:
  assumes refl: "\<forall>a. eq a a"
  shows "inRange_eq m \<Longrightarrow> placed_eq m \<Longrightarrow> respectsEq eq m \<Longrightarrow> mset (allKeys m) = mset S \<Longrightarrow>
         \<exists>m'. run_calls eq m cs = Inr m' \<and> inRange_eq m' \<and> placed_eq m' \<and>
              mset (allKeys m') = mset (survivors eq cs S)"
proof (induction cs arbitrary: m S)
  case Nil
  then show ?case by simp
next
  case (Cons c cs)
  show ?case
  proof (cases c)
    case (CallSet k v)
    from Set_eq_step [OF Cons.prems(1,2,4) refl Cons.prems(3), of k v] obtain m1
      where m1: "Set_eq eq m k v = Inr m1" "inRange_eq m1" "placed_eq m1" "respectsEq eq m1"
        "mset (allKeys m1) = mset (if list_ex (\<lambda>k'. sameKey eq k' k) S then S else S @ [k])"
      by blast
    from Cons.IH [OF m1(2,3,4,5)] obtain m2
      where "run_calls eq m1 cs = Inr m2" "inRange_eq m2" "placed_eq m2"
        "mset (allKeys m2)
           = mset (survivors eq cs (if list_ex (\<lambda>k'. sameKey eq k' k) S then S else S @ [k]))"
      by blast
    with m1(1) CallSet show ?thesis by simp
  next
    case (CallDelete k)
    from Delete_eq_step [OF Cons.prems(1,2,4) refl Cons.prems(3), of k] obtain m1
      where m1: "map_sum id snd (Delete_eq eq m k) = Inr m1" "inRange_eq m1" "placed_eq m1"
        "respectsEq eq m1"
        "mset (allKeys m1) = mset (filter (\<lambda>k'. \<not> sameKey eq k' k) S)"
      by blast
    from Cons.IH [OF m1(2,3,4,5)] obtain m2
      where "run_calls eq m1 cs = Inr m2" "inRange_eq m2" "placed_eq m2"
        "mset (allKeys m2) = mset (survivors eq cs (filter (\<lambda>k'. \<not> sameKey eq k' k) S))"
      by blast
    with m1(1) CallDelete show ?thesis by simp
  qed
qed

lemma foldl_keepsShards_eq:
  "list_all keepsShards_eq opts \<Longrightarrow>
   shards_eq (foldl (\<lambda>m opt. opt m) m opts) = shards_eq m \<and>
   shardMask_eq (foldl (\<lambda>m opt. opt m) m opts) = shardMask_eq m"
  by (induction opts arbitrary: m) (simp_all add: keepsShards_eq_def)

lemma keepsShards_eq_WithHash: "keepsShards_eq (WithHash_eq f)"
  by (simp add: keepsShards_eq_def WithHash_eq_def)

lemma keepsShards_eq_WithSeed: "keepsShards_eq (WithSeed_eq s)"
  by (simp add: keepsShards_eq_def WithSeed_eq_def)

lemma WithShards_eq_fresh:
  assumes "WithShards_eq n opts derived fresh = Inr m" and "list_all keepsShards_eq opts"
  shows "inRange_eq m \<and> placed_eq m \<and> allKeys m = []"
proof -
  define c where "c = nextPowerOf2 (if sint n \<le> 0 then SHARD_COUNT else n)"
  have "shards_eq m = replicate (unat c) [] \<and> shardMask_eq m = ucast (c - 1)"
    using assms(1) foldl_keepsShards_eq [OF assms(2)]
    by (auto simp: WithShards_eq_def Let_def c_def split: if_splits)
  then have sh: "shards_eq m = replicate (unat c) []" and mk: "shardMask_eq m = ucast (c - 1)"
    by simp_all
  have "c \<noteq> 0" by (simp add: c_def nextPowerOf2_nonzero)
  then have "inRange_eq m" by (simp add: inRange_eq_def sh mk unat_mask_pred)
  moreover have "placed_eq m" by (simp add: placed_eq_def sh)
  moreover have "allKeys m = []" by (simp add: allKeys_def sh)
  ultimately show ?thesis by simp
qed

text \<open>
  C9, as the code has it. Let \<^verbatim>\<open>==\<close> on the key type be reflexive (no key is a NaN or holds
  one) and let the hasher give keys that are \<^verbatim>\<open>==\<close> the same digest. Start from the map
  that \<^verbatim>\<open>WithShards\<close> returns (with options that leave the shards alone, as \<^verbatim>\<open>WithHash\<close>
  and \<^verbatim>\<open>WithSeed\<close> do) and run any sequence of \<^verbatim>\<open>Set\<close> and \<^verbatim>\<open>Delete\<close> calls, with no other
  caller in between. No call panics, every entry then sits in the one shard its key
  routes to, and \<^verbatim>\<open>Len()\<close> is the number of surviving keys.
\<close>

theorem Len_counts_survivors:
  assumes "WithShards_eq n opts derived fresh = Inr m0"
    and "list_all keepsShards_eq opts"
    and "\<forall>a. eq a a"
    and "respectsEq eq m0"
  shows "\<exists>m. run_calls eq m0 cs = Inr m \<and> placed_eq m \<and>
           Len m = length (survivors eq cs [])"
proof -
  from WithShards_eq_fresh [OF assms(1,2)]
  have r: "inRange_eq m0" and p: "placed_eq m0" and k: "mset (allKeys m0) = mset []"
    by simp_all
  from run_calls_counts [OF assms(3) r p assms(4) k, of cs] obtain m
    where m: "run_calls eq m0 cs = Inr m" "placed_eq m"
      "mset (allKeys m) = mset (survivors eq cs [])"
    by blast
  from m(3) have "length (allKeys m) = length (survivors eq cs [])"
    by (rule mset_eq_length)
  with m(1,2) show ?thesis by (auto simp: Len_allKeys)
qed

lemma replicate_four: "replicate 4 x = [x, x, x, x]"
  by (simp add: numeral_eq_Suc)

lemma modMap_built: "WithShards_eq 4 [WithSeed_eq 0] hashMod8 3 = Inr modMap"
  by (simp add: WithShards_eq_def nextPowerOf2_def modMap_def WithSeed_eq_def replicate_four)

lemma survivors_callsMod8: "survivors eqMod8 callsMod8 [] = [1]"
  by (simp add: callsMod8_def sameKey_def eqMod8_def)

theorem Len_counts_survivors_witness:
  "WithShards_eq 4 [WithSeed_eq 0] hashMod8 3 = Inr modMap \<and>
   list_all keepsShards_eq [WithSeed_eq 0 :: (nat, nat, nat) ConcurrentMap_eq \<Rightarrow> _] \<and>
   (\<forall>a. eqMod8 a a) \<and> respectsEq eqMod8 modMap \<and> eqMod8 1 9 \<and>
   (\<exists>m. run_calls eqMod8 modMap callsMod8 = Inr m \<and> placed_eq m \<and> Len m = 1)"
proof -
  have a: "list_all keepsShards_eq [WithSeed_eq 0 :: (nat, nat, nat) ConcurrentMap_eq \<Rightarrow> _]"
    by (simp add: keepsShards_eq_WithSeed)
  have b: "\<forall>a. eqMod8 a a" by (simp add: eqMod8_def)
  have c: "respectsEq eqMod8 modMap"
    by (simp add: respectsEq_def eqMod8_def modMap_def hashMod8_def)
  have d: "eqMod8 1 9" by (simp add: eqMod8_def)
  from Len_counts_survivors [OF modMap_built a b c, of callsMod8]
  have "\<exists>m. run_calls eqMod8 modMap callsMod8 = Inr m \<and> placed_eq m \<and> Len m = 1"
    by (simp add: survivors_callsMod8)
  with modMap_built a b c d show ?thesis by blast
qed

text \<open>
  C9, as the claim has it, fails for keys of type \<^verbatim>\<open>float64\<close>. A NaN key that is set and
  then deleted is not a surviving key, yet \<^verbatim>\<open>delete\<close> finds no entry \<^verbatim>\<open>==\<close> to it and \<^verbatim>\<open>Len()\<close>
  is 1. And \<^verbatim>\<open>+0.0\<close> and \<^verbatim>\<open>-0.0\<close> are one key, yet \<^verbatim>\<open>Float64Hasher\<close> hashes their bit
  patterns, which differ: with 256 shards and the byte hash \<open>toyHash\<close> the two route to
  the shards 0 and 128, so that setting both leaves the one key in two shards and
  \<^verbatim>\<open>Len()\<close> is 2.
\<close>

theorem float_keys_counterexample:
  "(case WithShards_eq 256 [] (Float64Hasher toyHash) 0 of
      Inl e \<Rightarrow> False
    | Inr m0 \<Rightarrow>
        (case run_calls float64_eq m0 [CallSet nan64 (1::nat), CallDelete nan64] of
           Inl e \<Rightarrow> False | Inr m \<Rightarrow> Len m = 1) \<and>
        shardIndex_eq m0 posZero64 = 0 \<and> shardIndex_eq m0 negZero64 = 128 \<and>
        (case run_calls float64_eq m0 [CallSet posZero64 1, CallSet negZero64 2] of
           Inl e \<Rightarrow> False | Inr m \<Rightarrow> Len m = 2)) \<and>
   length (survivors float64_eq [CallSet nan64 (1::nat), CallDelete nan64] []) = 0 \<and>
   float64_eq posZero64 negZero64 \<and>
   length (survivors float64_eq [CallSet posZero64 (1::nat), CallSet negZero64 2] []) = 1"
  by code_simp

end
